theory Spec2Isabelle
  imports Complex_Main "HOL-Library.Sublist"
begin

section \<open>Strings, numbers and the two regular expressions of the line parser\<close>

text \<open>
  A \<open>string\<close> is a list of code units below 256. A JavaScript number is either NaN, one of
  the two infinities or a finite value; a finite value is kept as the exact rational that
  the literal denotes (the rounding to a binary64 is not modelled, and \<open>-0\<close> is \<open>0\<close>).
\<close>

datatype number = NaN | Fin rat | PosInfinity | NegInfinity

definition isNaN :: "number \<Rightarrow> bool" where
  "isNaN n = (n = NaN)"

definition negate :: "number \<Rightarrow> number" where
  "negate n = (case n of NaN \<Rightarrow> NaN | Fin r \<Rightarrow> Fin (- r)
                | PosInfinity \<Rightarrow> NegInfinity | NegInfinity \<Rightarrow> PosInfinity)"

text \<open>The class \<open>\s\<close> of a regular expression (white space and line terminators), and the
  line terminators that \<open>.\<close> does not match, among the code units below 256.\<close>

definition isSpace :: "char \<Rightarrow> bool" where
  "isSpace c = (c \<in> set [CHR 0x09, CHR 0x0A, CHR 0x0B, CHR 0x0C, CHR 0x0D, CHR 0x20, CHR 0xA0])"

definition isLineTerminator :: "char \<Rightarrow> bool" where
  "isLineTerminator c = (c = CHR 0x0A \<or> c = CHR 0x0D)"

definition isDigit :: "char \<Rightarrow> bool" where
  "isDigit c = (48 \<le> (of_char c :: nat) \<and> (of_char c :: nat) \<le> 57)"

definition isHexDigit :: "char \<Rightarrow> bool" where
  "isHexDigit c = (isDigit c \<or> (65 \<le> (of_char c :: nat) \<and> (of_char c :: nat) \<le> 70)
                             \<or> (97 \<le> (of_char c :: nat) \<and> (of_char c :: nat) \<le> 102))"

definition digitVal :: "char \<Rightarrow> nat" where
  "digitVal c = (if isDigit c then of_char c - 48
                 else if 97 \<le> (of_char c :: nat) then of_char c - 87 else of_char c - 55)"

definition digitsIn :: "nat \<Rightarrow> string \<Rightarrow> bool" where
  "digitsIn base s = (s \<noteq> [] \<and> list_all (\<lambda>c. isHexDigit c \<and> digitVal c < base) s)"

definition digitsValue :: "nat \<Rightarrow> string \<Rightarrow> nat" where
  "digitsValue base s = foldl (\<lambda>a c. base * a + digitVal c) 0 s"

text \<open>The \<open>SignedInteger\<close> of an exponent part.\<close>

definition signedInteger :: "string \<Rightarrow> int option" where
  "signedInteger s =
     (if s \<noteq> [] \<and> hd s = CHR ''+'' then
        (if digitsIn 10 (tl s) then Some (int (digitsValue 10 (tl s))) else None)
      else if s \<noteq> [] \<and> hd s = CHR ''-'' then
        (if digitsIn 10 (tl s) then Some (- int (digitsValue 10 (tl s))) else None)
      else if digitsIn 10 s then Some (int (digitsValue 10 s)) else None)"

text \<open>\<open>StrUnsignedDecimalLiteral\<close>: \<open>Infinity\<close>, \<open>D.D\<^sub>o\<^sub>p\<^sub>t E\<^sub>o\<^sub>p\<^sub>t\<close>, \<open>.D E\<^sub>o\<^sub>p\<^sub>t\<close> or \<open>D E\<^sub>o\<^sub>p\<^sub>t\<close>.\<close>

definition strUnsignedDecimalLiteral :: "string \<Rightarrow> number" where
  "strUnsignedDecimalLiteral s =
     (if s = ''Infinity'' then PosInfinity
      else
        let notE = (\<lambda>c. c \<noteq> CHR ''e'' \<and> c \<noteq> CHR ''E'');
            m = takeWhile notE s;
            er = dropWhile notE s;
            ip = takeWhile (\<lambda>c. c \<noteq> CHR ''.'') m;
            fr = dropWhile (\<lambda>c. c \<noteq> CHR ''.'') m;
            fp = tl fr;
            mantissaOk =
              (if fr = [] then digitsIn 10 ip
               else (ip = [] \<or> digitsIn 10 ip) \<and> (fp = [] \<or> digitsIn 10 fp)
                    \<and> \<not> (ip = [] \<and> fp = []));
            ex = (if er = [] then Some 0 else signedInteger (tl er))
        in if \<not> mantissaOk then NaN
           else case ex of
                  None \<Rightarrow> NaN
                | Some e \<Rightarrow>
                    Fin ((of_nat (digitsValue 10 ip) + of_nat (digitsValue 10 fp) / 10 ^ length fp)
                         * (if 0 \<le> e then 10 ^ nat e else 1 / 10 ^ nat (- e))))"

definition strDecimalLiteral :: "string \<Rightarrow> number" where
  "strDecimalLiteral s =
     (if s \<noteq> [] \<and> hd s = CHR ''+'' then strUnsignedDecimalLiteral (tl s)
      else if s \<noteq> [] \<and> hd s = CHR ''-'' then negate (strUnsignedDecimalLiteral (tl s))
      else strUnsignedDecimalLiteral s)"

text \<open>\<open>NonDecimalIntegerLiteral\<close>: the base of the prefix \<open>0x\<close>, \<open>0o\<close> or \<open>0b\<close>, if any.\<close>

definition nonDecimalBase :: "string \<Rightarrow> nat option" where
  "nonDecimalBase s =
     (if length s < 2 \<or> hd s \<noteq> CHR ''0'' then None
      else if s ! 1 = CHR ''x'' \<or> s ! 1 = CHR ''X'' then Some 16
      else if s ! 1 = CHR ''o'' \<or> s ! 1 = CHR ''O'' then Some 8
      else if s ! 1 = CHR ''b'' \<or> s ! 1 = CHR ''B'' then Some 2
      else None)"

text \<open>The built-in conversion \<open>Number(str)\<close> of a string (\<open>StringToNumber\<close>): white space
  is trimmed on both sides, the empty string is \<open>0\<close>, and a string outside the grammar of
  \<open>StrNumericLiteral\<close> is NaN.\<close>

definition Number :: "string \<Rightarrow> number" where
  "Number str =
     (let t = rev (dropWhile isSpace (rev (dropWhile isSpace str)))
      in if t = [] then Fin 0
         else case nonDecimalBase t of
                Some b \<Rightarrow> (if digitsIn b (drop 2 t) then Fin (of_nat (digitsValue b (drop 2 t)))
                           else NaN)
              | None \<Rightarrow> strDecimalLiteral t)"

text \<open>\<open>line.match(/^\s*$/)\<close>.\<close>

definition blankLine :: "string \<Rightarrow> bool" where
  "blankLine line = list_all isSpace line"

text \<open>\<open>line.match(/(\S+)\s+(.*)/)\<close>, the two groups of the leftmost match: the first run
  of non-space characters, when a space follows it, and what follows the spaces up to the
  first line terminator. (A run that reaches the end of the line matches nowhere.)\<close>

definition matchSizePath :: "string \<Rightarrow> (string \<times> string) option" where
  "matchSizePath line =
     (let s = dropWhile isSpace line;
          sizeStr = takeWhile (\<lambda>c. \<not> isSpace c) s;
          r = dropWhile (\<lambda>c. \<not> isSpace c) s
      in if sizeStr = [] \<or> r = [] then None
         else Some (sizeStr, takeWhile (\<lambda>c. \<not> isLineTerminator c) (dropWhile isSpace r)))"

text \<open>\<open>line.match(/\[\[(.*)\]\]/)\<close>: somewhere \<open>[[\<close>, later \<open>]]\<close>, and no line terminator
  between them.\<close>

fun closesDelimeter :: "string \<Rightarrow> bool" where
  "closesDelimeter [] = False"
| "closesDelimeter (c # cs) =
     ((c = CHR '']'' \<and> cs \<noteq> [] \<and> hd cs = CHR '']'')
      \<or> (\<not> isLineTerminator c \<and> closesDelimeter cs))"

fun isValueDelimeter :: "string \<Rightarrow> bool" where
  "isValueDelimeter [] = False"
| "isValueDelimeter (c # cs) =
     ((c = CHR ''['' \<and> cs \<noteq> [] \<and> hd cs = CHR ''['' \<and> closesDelimeter (tl cs))
      \<or> isValueDelimeter cs)"

section \<open>parseLine\<close>

datatype error = Error string

definition parseLine :: "string \<Rightarrow> error + (string \<times> number)" where
  "parseLine line =
     (if blankLine line then Inr ([], Fin 0)
      else case matchSizePath line of
             Some (sizeStr, path) \<Rightarrow>
               (let size = Number sizeStr
                in if isNaN size
                   then Inl (Error (''Unable to parse NaN as a number in line: '' @ [CHR 0x22]
                                    @ line @ [CHR 0x22]))
                   else Inr (path, size))
           | None \<Rightarrow> Inr (line, Fin 1))"

section \<open>Rows and the store\<close>

text \<open>
  A row is the array \<open>[string, number, number?]\<close>. Its third position is \<open>Absent\<close> in an
  array of length 2, \<open>Undefined\<close> when it was assigned \<open>undefined\<close> (the array has length 3
  then), and \<open>Value n\<close> when it was assigned the number \<open>n\<close>.
\<close>

datatype slot = Absent | Undefined | Value number

type_synonym row = "string \<times> number \<times> slot"

definition rowLength :: "row \<Rightarrow> nat" where
  "rowLength r = (case snd (snd r) of Absent \<Rightarrow> 2 | _ \<Rightarrow> 3)"

text \<open>The assignment \<open>r[2] = v\<close>.\<close>

definition setIndex2 :: "row \<Rightarrow> slot \<Rightarrow> row" where
  "setIndex2 r v = (fst r, fst (snd r), v)"

text \<open>Reading \<open>r[2]\<close>: a number, or \<open>undefined\<close> (here \<open>None\<close>).\<close>

definition rowValue :: "row \<Rightarrow> number option" where
  "rowValue r = (case snd (snd r) of Value n \<Rightarrow> Some n | _ \<Rightarrow> None)"

text \<open>The comparison \<open>n >= 0\<close>.\<close>

definition nonNegative :: "number \<Rightarrow> bool" where
  "nonNegative n = (case n of NaN \<Rightarrow> False | Fin r \<Rightarrow> 0 \<le> r
                     | PosInfinity \<Rightarrow> True | NegInfinity \<Rightarrow> False)"

text \<open>\<open>text.split('\n')\<close>: always at least one line.\<close>

fun splitLines :: "string \<Rightarrow> string list" where
  "splitLines [] = [[]]"
| "splitLines (c # cs) =
     (if c = CHR 0x0A then [] # splitLines cs
      else case splitLines cs of l # ls \<Rightarrow> (c # l) # ls | [] \<Rightarrow> [[c]])"

section \<open>processSizePathPairs\<close>

fun mapParseLine :: "string list \<Rightarrow> error + (string \<times> number) list" where
  "mapParseLine [] = Inr []"
| "mapParseLine (l # ls) =
     (case parseLine l of
        Inl e \<Rightarrow> Inl e
      | Inr r \<Rightarrow> (case mapParseLine ls of Inl e \<Rightarrow> Inl e | Inr rs \<Rightarrow> Inr (r # rs)))"

definition processSizePathPairs :: "string \<Rightarrow> error + (string \<times> number) list" where
  "processSizePathPairs text = mapParseLine (splitLines text)"

section \<open>processSizeValuePathTuple\<close>

text \<open>
  The rows are arrays that \<open>results\<close> and \<open>ptrs\<close> share, and the overlay pass writes through
  \<open>ptrs\<close>. So the rows live in a store (\<open>heap\<close>, a row is allocated at the end),
  \<open>results\<close> is the list of their addresses and \<open>ptrs\<close> maps a path to an address.
  The text that \<open>collectInputFromArgs\<close> reads (from files or the standard input) is the
  argument of the function.
\<close>

record pstate =
  heap :: "row list"
  results :: "nat list"
  ptrs :: "string \<rightharpoonup> nat"
  foundValueDelimeter :: bool

definition initState :: pstate where
  "initState = \<lparr>heap = [], results = [], ptrs = Map.empty, foundValueDelimeter = False\<rparr>"

text \<open>One turn of the loop over the lines. A thrown error leaves the function.\<close>

definition step :: "pstate \<Rightarrow> string \<Rightarrow> error + pstate" where
  "step st line =
     (if isValueDelimeter line then Inr (st\<lparr>foundValueDelimeter := True\<rparr>)
      else case parseLine line of
             Inl e \<Rightarrow> Inl e
           | Inr (p, n) \<Rightarrow>
               if \<not> foundValueDelimeter st then
                 Inr (st\<lparr>heap := heap st @ [(p, n, Absent)],
                         results := results st @ [length (heap st)],
                         ptrs := (ptrs st)(p \<mapsto> length (heap st))\<rparr>)
               else (case ptrs st p of
                       Some a \<Rightarrow>
                         Inr (st\<lparr>heap := list_update (heap st) a (setIndex2 (heap st ! a) (Value n))\<rparr>)
                     | None \<Rightarrow>
                         Inr (st\<lparr>heap := heap st @ [(p, Fin 0, Value n)],
                                 results := results st @ [length (heap st)]\<rparr>)))"

fun scan :: "pstate \<Rightarrow> string list \<Rightarrow> error + pstate" where
  "scan st [] = Inr st"
| "scan st (l # ls) = (case step st l of Inl e \<Rightarrow> Inl e | Inr st' \<Rightarrow> scan st' ls)"

text \<open>What follows the loop: the signal on the first row, and the rows that are returned.\<close>

definition signal :: "pstate \<Rightarrow> pstate" where
  "signal st =
     (if results st = [] then st
      else if foundValueDelimeter st \<and> rowLength (heap st ! hd (results st)) = 2
      then st\<lparr>heap := list_update (heap st) (hd (results st))
                               (setIndex2 (heap st ! hd (results st)) Undefined)\<rparr>
      else st)"

definition returned :: "pstate \<Rightarrow> row list" where
  "returned st = map (\<lambda>a. heap st ! a) (results st)"

definition processLines :: "string list \<Rightarrow> error + row list" where
  "processLines ls =
     (case scan initState ls of Inl e \<Rightarrow> Inl e | Inr st \<Rightarrow> Inr (returned (signal st)))"

definition processSizeValuePathTuple :: "string \<Rightarrow> error + row list" where
  "processSizeValuePathTuple text = processLines (splitLines text)"

section \<open>treeFromRows\<close>

text \<open>
  A tree node, with the fields that the command line reads: \<open>id\<close> (undefined at a root
  without a name), \<open>size\<close>, \<open>value\<close> and \<open>children\<close> (which may be missing).
\<close>

datatype node =
  Node (nodeId: "string option") (nodeSize: number) (nodeValue: "number option")
       (children: "node list option")

text \<open>The addition of two numbers, as \<open>+=\<close> computes it.\<close>

definition add :: "number \<Rightarrow> number \<Rightarrow> number" where
  "add a b =
     (case a of
        NaN \<Rightarrow> NaN
      | Fin x \<Rightarrow> (case b of Fin y \<Rightarrow> Fin (x + y) | _ \<Rightarrow> b)
      | PosInfinity \<Rightarrow> (case b of NaN \<Rightarrow> NaN | NegInfinity \<Rightarrow> NaN | _ \<Rightarrow> PosInfinity)
      | NegInfinity \<Rightarrow> (case b of NaN \<Rightarrow> NaN | PosInfinity \<Rightarrow> NaN | _ \<Rightarrow> NegInfinity))"

text \<open>"If there's a common empty parent, skip it."\<close>

definition skipEmptyParent :: "node \<Rightarrow> node" where
  "skipEmptyParent n =
     (if nodeId n = None \<and> children n \<noteq> None \<and> length (the (children n)) = 1
      then the (children n) ! 0 else n)"

text \<open>"If there's an empty parent, roll up for it."\<close>

definition rollUpEmptyParent :: "node \<Rightarrow> node" where
  "rollUpEmptyParent n =
     (if nodeSize n = Fin 0 \<and> children n \<noteq> None
      then Node (nodeId n) (foldl (\<lambda>s c. add s (nodeSize c)) (nodeSize n) (the (children n)))
                (nodeValue n) (children n)
      else n)"

text \<open>
  The functions \<open>treeify\<close>, \<open>rollup\<close>, \<open>sort\<close> and \<open>flatten\<close> of the tree module are
  parameters. The last three change the node they are given; here they return it.
\<close>

definition treeFromRows ::
  "('r \<Rightarrow> node) \<Rightarrow> (node \<Rightarrow> node) \<Rightarrow> (node \<Rightarrow> node) \<Rightarrow> (node \<Rightarrow> node) \<Rightarrow> 'r \<Rightarrow> bool \<Rightarrow> node" where
  "treeFromRows treeify rollup sort' flatten rows doRollup =
     (let n0 = treeify rows;
          n1 = (if nodeId n0 = None \<and> children n0 \<noteq> None \<and> length (the (children n0)) = 1
                then the (children n0) ! 0 else n0);
          n2 = (if nodeSize n1 = Fin 0 \<and> children n1 \<noteq> None
                then Node (nodeId n1)
                          (foldl (\<lambda>s c. add s (nodeSize c)) (nodeSize n1) (the (children n1)))
                          (nodeValue n1) (children n1)
                else n1);
          n3 = (if doRollup then rollup n2 else n2)
      in flatten (sort' n3))"

text \<open>What treeFromRows does to the node it has chosen as the root.\<close>

definition afterRootChoice ::
  "(node \<Rightarrow> node) \<Rightarrow> (node \<Rightarrow> node) \<Rightarrow> (node \<Rightarrow> node) \<Rightarrow> bool \<Rightarrow> node \<Rightarrow> node" where
  "afterRootChoice rollup sort' flatten doRollup n =
     flatten (sort' (if doRollup then rollup (rollUpEmptyParent n) else rollUpEmptyParent n))"

section \<open>processXml\<close>

text \<open>
  The parsed report: the source prefix and, for each package, its classes with the
  attributes \<open>filename\<close> and \<open>line-rate\<close>. The library functions \<open>path.join\<close> and
  \<open>parseFloat\<close> are parameters. The rows of \<open>fileSizes\<close> are distinct arrays, so the list
  is its own store and \<open>ptrs\<close> maps a path to a position in it. The function returns
  nothing: its effect is the list as it leaves it. What it prints is left out.
\<close>

record parsedClass =
  filename :: string
  lineRate :: string

record report =
  source :: string
  packages :: "parsedClass list list"

text \<open>\<open>for (const data of fileSizes) ptrs.set(data[0], data)\<close>.\<close>

definition indexByPath :: "string list \<Rightarrow> (string \<rightharpoonup> nat)" where
  "indexByPath ps = foldl (\<lambda>m i. m(ps ! i \<mapsto> i)) Map.empty [0..<length ps]"

definition processClass ::
  "(string \<Rightarrow> string \<Rightarrow> string) \<Rightarrow> (string \<Rightarrow> number) \<Rightarrow> string \<Rightarrow> (string \<rightharpoonup> nat)
     \<Rightarrow> row list \<Rightarrow> parsedClass \<Rightarrow> row list" where
  "processClass pathJoin parseFloat prefix' ptrs' fileSizes parsedClass =
     (case ptrs' (pathJoin prefix' (filename parsedClass)) of
        None \<Rightarrow> fileSizes
      | Some i \<Rightarrow>
          list_update fileSizes i
            (setIndex2 (fileSizes ! i) (Value (parseFloat (lineRate parsedClass)))))"

definition processXml ::
  "(string \<Rightarrow> string \<Rightarrow> string) \<Rightarrow> (string \<Rightarrow> number) \<Rightarrow> report \<Rightarrow> row list \<Rightarrow> row list" where
  "processXml pathJoin parseFloat parsed fileSizes =
     (let prefix' = source parsed;
          ptrs' = indexByPath (map fst fileSizes)
      in foldl (\<lambda>fs parsedPackage.
                  foldl (processClass pathJoin parseFloat prefix' ptrs') fs parsedPackage)
               fileSizes (packages parsed))"

section \<open>The state of the scan\<close>

text \<open>The lines of the primary pass: those before the first value delimeter.\<close>

definition primaryLines :: "string list \<Rightarrow> string list" where
  "primaryLines ls = takeWhile (\<lambda>l. \<not> isValueDelimeter l) ls"

text \<open>
  What holds of the state after the lines \<open>ls\<close>, whose primary lines parse to \<open>rs\<close>: the
  lookup map is the one of the primary paths, \<open>results\<close> lists the whole store in order,
  the store begins with one row for each primary line, with its path and size, and has no
  other row before the delimeter.
\<close>

definition scanned :: "string list \<Rightarrow> (string \<times> number) list \<Rightarrow> pstate \<Rightarrow> bool" where
  "scanned ls rs st \<longleftrightarrow>
     ptrs st = indexByPath (map fst rs)
     \<and> results st = [0..<length (heap st)]
     \<and> length rs \<le> length (heap st)
     \<and> (\<forall>j < length rs. fst (heap st ! j) = fst (rs ! j) \<and> fst (snd (heap st ! j)) = snd (rs ! j))
     \<and> foundValueDelimeter st = (\<exists>d \<in> set ls. isValueDelimeter d)
     \<and> (\<not> foundValueDelimeter st \<longrightarrow>
          length (heap st) = length rs \<and> (\<forall>j < length rs. snd (snd (heap st ! j)) = Absent))"

text \<open>The signal on the first row, on the list of rows that \<open>results\<close> stands for.\<close>

definition signalRows :: "bool \<Rightarrow> row list \<Rightarrow> row list" where
  "signalRows found rows =
     (case rows of
        [] \<Rightarrow> []
      | r # rest \<Rightarrow> if found \<and> rowLength r = 2 then setIndex2 r Undefined # rest else rows)"

section \<open>Properties of the line parser\<close>

text \<open>
  C1. The overlay example: the lines \<open>10 /x\<close>, \<open>20 /y\<close>, \<open>[[ scores ]]\<close>, \<open>0.3 /x\<close> give
  two rows in input order. The first is \<open>/x\<close> with size 10 and value 0.3, taken from the
  size position of the overlay line; the second is \<open>/y\<close> with size 20, and reading its
  value gives undefined.
\<close>

theorem overlay_join_example:
  "processSizeValuePathTuple ''10 /x\<newline>20 /y\<newline>[[ scores ]]\<newline>0.3 /x''
     = Inr [(''/x'', Fin 10, Value (Fin (3 / 10))), (''/y'', Fin 20, Absent)]
   \<and> map rowValue [(''/x'', Fin 10, Value (Fin (3 / 10))), (''/y'', Fin 20, Absent)]
     = [Some (Fin (3 / 10)), None]"
  by code_simp

lemma takeWhile_token:
  assumes "\<forall>c\<in>set tok. \<not> isSpace c" "ws \<noteq> []" "\<forall>c\<in>set ws. isSpace c"
  shows "takeWhile (\<lambda>c. \<not> isSpace c) (tok @ ws @ rest) = tok"
    and "dropWhile (\<lambda>c. \<not> isSpace c) (tok @ ws @ rest) = ws @ rest"
proof -
  from assms obtain w ws' where ws: "ws = w # ws'" "isSpace w"
    by (cases ws) auto
  show "takeWhile (\<lambda>c. \<not> isSpace c) (tok @ ws @ rest) = tok"
    using assms(1) ws by simp
  show "dropWhile (\<lambda>c. \<not> isSpace c) (tok @ ws @ rest) = ws @ rest"
    using assms(1) ws by simp
qed

lemma matchSizePath_token:
  assumes "\<forall>c\<in>set lead. isSpace c" "tok \<noteq> []" "\<forall>c\<in>set tok. \<not> isSpace c"
    "ws \<noteq> []" "\<forall>c\<in>set ws. isSpace c"
  shows "\<exists>path. matchSizePath (lead @ tok @ ws @ rest) = Some (tok, path)"
proof -
  from assms(2,3) obtain t tok' where tok: "tok = t # tok'" "\<not> isSpace t"
    by (cases tok) auto
  have d: "dropWhile isSpace (lead @ tok @ ws @ rest) = tok @ ws @ rest"
    using assms(1) tok by simp
  show ?thesis
    unfolding matchSizePath_def d Let_def
    using takeWhile_token[OF assms(3,4,5), of rest] assms(2,4) by simp
qed

text \<open>
  C2. A line made of a token without white space, then white space, then anything (white
  space may come first), whose token \<open>Number\<close> turns into NaN, makes parseLine throw; the
  message of the error contains the line, and no row is returned.
\<close>

theorem parseLine_malformed_number_throws:
  assumes "\<forall>c\<in>set lead. isSpace c"
    and "tok \<noteq> []" and "\<forall>c\<in>set tok. \<not> isSpace c"
    and "ws \<noteq> []" and "\<forall>c\<in>set ws. isSpace c"
    and "isNaN (Number tok)"
  shows "\<exists>msg. parseLine (lead @ tok @ ws @ rest) = Inl (Error msg)
           \<and> sublist (lead @ tok @ ws @ rest) msg"
proof -
  let ?line = "lead @ tok @ ws @ rest"
  obtain path where m: "matchSizePath ?line = Some (tok, path)"
    using matchSizePath_token[OF assms(1-5)] by blast
  have nb: "\<not> blankLine ?line"
    using assms(2,3) by (cases tok) (auto simp: blankLine_def)
  have "parseLine ?line = Inl (Error (''Unable to parse NaN as a number in line: '' @ [CHR 0x22]
                                    @ ?line @ [CHR 0x22]))"
    using m nb assms(6) by (simp add: parseLine_def)
  moreover have "sublist ?line (''Unable to parse NaN as a number in line: '' @ [CHR 0x22]
                                    @ ?line @ [CHR 0x22])"
    unfolding sublist_def by (metis append.assoc)
  ultimately show ?thesis by blast
qed

theorem parseLine_malformed_number_throws_witness:
  "\<exists>msg. parseLine ''abc /x'' = Inl (Error msg) \<and> sublist ''abc /x'' msg"
proof -
  have 1: "\<forall>c\<in>set ''''. isSpace c" by simp
  have 2: "''abc'' \<noteq> []" by simp
  have 3: "\<forall>c\<in>set ''abc''. \<not> isSpace c" by (simp add: isSpace_def)
  have 4: "'' '' \<noteq> []" by simp
  have 5: "\<forall>c\<in>set '' ''. isSpace c" by (simp add: isSpace_def)
  have 6: "isNaN (Number ''abc'')" by code_simp
  show ?thesis
    using parseLine_malformed_number_throws[OF 1 2 3 4 5 6, of "''/x''"] by simp
qed

lemma nonNegative_unsigned:
  "strUnsignedDecimalLiteral s = NaN \<or> nonNegative (strUnsignedDecimalLiteral s)"
  by (simp add: strUnsignedDecimalLiteral_def Let_def nonNegative_def split: option.splits)

lemma trim_token:
  assumes "\<forall>c\<in>set tok. \<not> isSpace c"
  shows "rev (dropWhile isSpace (rev (dropWhile isSpace tok))) = tok"
proof -
  have 1: "dropWhile isSpace tok = tok"
    using assms by (cases tok) auto
  have 2: "dropWhile isSpace (rev tok) = rev tok"
    using assms by (cases "rev tok") (auto dest: arg_cong[where f = set])
  show ?thesis by (simp add: 1 2)
qed

lemma Number_nonNegative:
  assumes "\<forall>c\<in>set tok. \<not> isSpace c" and "hd tok \<noteq> CHR ''-''" and "Number tok \<noteq> NaN"
  shows "nonNegative (Number tok)"
proof (cases "tok = []")
  case True
  then show ?thesis by (simp add: Number_def nonNegative_def)
next
  case False
  show ?thesis
  proof (cases "nonDecimalBase tok")
    case (Some b)
    then show ?thesis
      using assms(3) False
      by (simp add: Number_def trim_token[OF assms(1)] nonNegative_def split: if_splits)
  next
    case None
    then have n: "Number tok = strDecimalLiteral tok"
      using False by (simp add: Number_def trim_token[OF assms(1)])
    show ?thesis
      using assms(2,3) nonNegative_unsigned[of tok] nonNegative_unsigned[of "tl tok"]
      unfolding n strDecimalLiteral_def by (auto split: if_splits)
  qed
qed

lemma matchSizePath_no_space:
  "matchSizePath line = Some (tok, path) \<Longrightarrow> \<forall>c\<in>set tok. \<not> isSpace c"
  by (auto simp: matchSizePath_def Let_def split: if_splits dest: set_takeWhileD)

text \<open>
  C5 (as amended). A row that parseLine returns has a size that is not NaN, and the size is
  at least 0 unless the first token of the line begins with a minus sign. (The claim without
  the exception fails: the line \<open>-5 /x\<close> is accepted with size -5.)
\<close>

theorem parseLine_size_sign:
  assumes "parseLine line = Inr (p, n)"
  shows "\<not> isNaN n
         \<and> ((\<forall>tok path. matchSizePath line = Some (tok, path) \<longrightarrow> hd tok \<noteq> CHR ''-'')
              \<longrightarrow> nonNegative n)"
proof (cases "blankLine line")
  case True
  with assms show ?thesis by (auto simp: parseLine_def isNaN_def nonNegative_def)
next
  case nb: False
  show ?thesis
  proof (cases "matchSizePath line")
    case None
    with assms nb show ?thesis by (auto simp: parseLine_def isNaN_def nonNegative_def)
  next
    case (Some m)
    obtain tok path where m: "m = (tok, path)" by (cases m)
    from assms nb Some m have n: "n = Number tok" "Number tok \<noteq> NaN"
      by (auto simp: parseLine_def isNaN_def Let_def split: if_splits)
    have ns: "\<forall>c\<in>set tok. \<not> isSpace c"
      using matchSizePath_no_space Some m by blast
    show ?thesis
      using n Some m Number_nonNegative[OF ns] by (auto simp: isNaN_def)
  qed
qed

theorem parseLine_size_sign_witness:
  "parseLine ''10 /x'' = Inr (''/x'', Fin 10) \<and> \<not> isNaN (Fin 10) \<and> nonNegative (Fin 10)"
proof -
  have 1: "parseLine ''10 /x'' = Inr (''/x'', Fin 10)" by code_simp
  have 2: "matchSizePath ''10 /x'' = Some (''10'', ''/x'')" by code_simp
  show ?thesis
    using parseLine_size_sign[OF 1] 1 by (simp add: 2)
qed

theorem parseLine_negative_size_counterexample:
  "parseLine ''-5 /x'' = Inr (''/x'', Fin (- 5)) \<and> \<not> nonNegative (Fin (- 5))"
  by code_simp

section \<open>Properties of treeFromRows\<close>

lemma treeFromRows_steps:
  "treeFromRows treeify rollup sort' flatten rows doRollup
     = afterRootChoice rollup sort' flatten doRollup (skipEmptyParent (treeify rows))"
  unfolding treeFromRows_def afterRootChoice_def skipEmptyParent_def rollUpEmptyParent_def Let_def
  by (rule refl)

text \<open>
  C7. When the root that the builder returns has an undefined id and exactly one child,
  treeFromRows goes on with that child as the root (and returns what the later steps make
  of it); when the root has an id, no children list, or a children list that is empty or
  longer than one, it goes on with the root itself.
\<close>

theorem treeFromRows_root_choice:
  "(nodeId (treeify rows) = None \<and> children (treeify rows) = Some [c]
      \<longrightarrow> treeFromRows treeify rollup sort' flatten rows doRollup
            = afterRootChoice rollup sort' flatten doRollup c)
   \<and> (nodeId (treeify rows) \<noteq> None \<or> children (treeify rows) = None
        \<or> (\<exists>cs. children (treeify rows) = Some cs \<and> length cs \<noteq> 1)
      \<longrightarrow> treeFromRows treeify rollup sort' flatten rows doRollup
            = afterRootChoice rollup sort' flatten doRollup (treeify rows))"
proof (intro conjI impI)
  assume "nodeId (treeify rows) = None \<and> children (treeify rows) = Some [c]"
  then have "skipEmptyParent (treeify rows) = c"
    by (simp add: skipEmptyParent_def)
  then show "treeFromRows treeify rollup sort' flatten rows doRollup
            = afterRootChoice rollup sort' flatten doRollup c"
    by (simp only: treeFromRows_steps)
next
  assume "nodeId (treeify rows) \<noteq> None \<or> children (treeify rows) = None
        \<or> (\<exists>cs. children (treeify rows) = Some cs \<and> length cs \<noteq> 1)"
  then have "skipEmptyParent (treeify rows) = treeify rows"
    unfolding skipEmptyParent_def by auto
  then show "treeFromRows treeify rollup sort' flatten rows doRollup
            = afterRootChoice rollup sort' flatten doRollup (treeify rows)"
    by (simp only: treeFromRows_steps)
qed

theorem treeFromRows_root_choice_witness:
  "treeFromRows (\<lambda>_. Node None (Fin 0) None (Some [Node (Some ''root'') (Fin 3) None None]))
      id id id () True
     = Node (Some ''root'') (Fin 3) None None
   \<and> treeFromRows (\<lambda>_. Node None (Fin 0) None
                         (Some [Node (Some ''a'') (Fin 1) None None,
                                Node (Some ''b'') (Fin 2) None None]))
      id id id () True
     = Node None (Fin 3) None
         (Some [Node (Some ''a'') (Fin 1) None None, Node (Some ''b'') (Fin 2) None None])"
proof -
  have a: "treeFromRows (\<lambda>_. Node None (Fin 0) None (Some [Node (Some ''root'') (Fin 3) None None]))
      id id id () True = Node (Some ''root'') (Fin 3) None None"
    using treeFromRows_root_choice[of "\<lambda>_. Node None (Fin 0) None (Some [Node (Some ''root'') (Fin 3) None None])"
        "()" "Node (Some ''root'') (Fin 3) None None" id id id True]
    by (simp add: afterRootChoice_def rollUpEmptyParent_def)
  have b: "treeFromRows (\<lambda>_. Node None (Fin 0) None
                         (Some [Node (Some ''a'') (Fin 1) None None,
                                Node (Some ''b'') (Fin 2) None None]))
      id id id () True
     = Node None (Fin 3) None
         (Some [Node (Some ''a'') (Fin 1) None None, Node (Some ''b'') (Fin 2) None None])"
    using treeFromRows_root_choice[of "\<lambda>_. Node None (Fin 0) None
                         (Some [Node (Some ''a'') (Fin 1) None None,
                                Node (Some ''b'') (Fin 2) None None])"
        "()" undefined id id id True]
    by (simp add: afterRootChoice_def rollUpEmptyParent_def add_def)
  show ?thesis using a b by simp
qed

section \<open>The lookup map\<close>

lemma indexByPath_snoc:
  "indexByPath (ps @ [p]) = (indexByPath ps)(p \<mapsto> length ps)"
proof -
  have "foldl (\<lambda>m i. m((ps @ [p]) ! i \<mapsto> i)) Map.empty [0..<length ps]
        = foldl (\<lambda>m i. m(ps ! i \<mapsto> i)) Map.empty [0..<length ps]"
    by (rule foldl_cong) (auto simp: nth_append)
  then show ?thesis
    by (simp add: indexByPath_def)
qed

lemma indexByPath_Nil: "indexByPath [] = Map.empty"
  by (simp add: indexByPath_def)

lemma indexByPath_None: "indexByPath ps p = None \<longleftrightarrow> p \<notin> set ps"
  by (induction ps rule: rev_induct) (auto simp: indexByPath_Nil indexByPath_snoc)

lemma indexByPath_Some:
  "indexByPath ps p = Some i \<longleftrightarrow>
     i < length ps \<and> ps ! i = p \<and> (\<forall>j. i < j \<and> j < length ps \<longrightarrow> ps ! j \<noteq> p)"
proof (induction ps rule: rev_induct)
  case Nil
  then show ?case by (simp add: indexByPath_Nil)
next
  case (snoc x xs)
  let ?R = "\<lambda>ys. i < length ys \<and> ys ! i = p \<and> (\<forall>j. i < j \<and> j < length ys \<longrightarrow> ys ! j \<noteq> p)"
  show ?case
  proof (cases "x = p")
    case True
    have "?R (xs @ [x]) \<longleftrightarrow> i = length xs"
    proof
      assume r: "?R (xs @ [x])"
      show "i = length xs"
      proof (rule ccontr)
        assume "i \<noteq> length xs"
        with r have il: "i < length xs" by simp
        from r have a: "\<And>j. i < j \<Longrightarrow> j < length (xs @ [x]) \<Longrightarrow> (xs @ [x]) ! j \<noteq> p"
          by blast
        have "(xs @ [x]) ! length xs \<noteq> p"
          by (rule a) (use il in simp_all)
        with True show False by simp
      qed
    next
      assume "i = length xs"
      with True show "?R (xs @ [x])" by auto
    qed
    with True show ?thesis
      by (auto simp: indexByPath_snoc)
  next
    case False
    have "?R (xs @ [x]) \<longleftrightarrow> ?R xs"
    proof
      assume r: "?R (xs @ [x])"
      have "i \<noteq> length xs" using r False by auto
      with r have il: "i < length xs" by simp
      moreover have "xs ! i = p" using r il by (simp add: nth_append)
      moreover have "\<forall>j. i < j \<and> j < length xs \<longrightarrow> xs ! j \<noteq> p"
      proof (intro allI impI)
        fix j assume j: "i < j \<and> j < length xs"
        from r have a: "\<And>j. i < j \<Longrightarrow> j < length (xs @ [x]) \<Longrightarrow> (xs @ [x]) ! j \<noteq> p"
          by blast
        have "(xs @ [x]) ! j \<noteq> p"
          by (rule a) (use j in simp_all)
        with j show "xs ! j \<noteq> p" by (simp add: nth_append)
      qed
      ultimately show "?R xs" by blast
    next
      assume r: "?R xs"
      have "\<forall>j. i < j \<and> j < length (xs @ [x]) \<longrightarrow> (xs @ [x]) ! j \<noteq> p"
      proof (intro allI impI)
        fix j assume j: "i < j \<and> j < length (xs @ [x])"
        show "(xs @ [x]) ! j \<noteq> p"
        proof (cases "j < length xs")
          case True
          with r j show ?thesis by (simp add: nth_append)
        next
          case False
          with j have "j = length xs" by simp
          with \<open>x \<noteq> p\<close> show ?thesis by simp
        qed
      qed
      with r show "?R (xs @ [x])" by (simp add: nth_append)
    qed
    with False snoc.IH show ?thesis
      by (simp add: indexByPath_snoc)
  qed
qed

section \<open>Properties of processXml\<close>

lemma foldl_packages:
  "foldl (\<lambda>fs pkg. foldl f fs pkg) fs pkgs = foldl f fs (concat pkgs)"
  by (induction pkgs arbitrary: fs) simp_all

lemma processXml_classes:
  "processXml pathJoin parseFloat parsed fs
     = foldl (processClass pathJoin parseFloat (source parsed) (indexByPath (map fst fs)))
             fs (concat (packages parsed))"
  by (simp add: processXml_def Let_def foldl_packages)

lemma processClass_length:
  "length (processClass pj pf pre P fs c) = length fs"
  by (simp add: processClass_def split: option.splits)

lemma processClass_path_size:
  "fst (processClass pj pf pre P fs c ! i) = fst (fs ! i)
   \<and> fst (snd (processClass pj pf pre P fs c ! i)) = fst (snd (fs ! i))"
proof (cases "P (pj pre (filename c))")
  case None
  then show ?thesis by (simp add: processClass_def)
next
  case (Some k)
  show ?thesis
  proof (cases "k < length fs")
    case True
    then show ?thesis
      using Some by (cases "i = k") (simp_all add: processClass_def setIndex2_def)
  next
    case False
    then show ?thesis using Some by (simp add: processClass_def list_update_beyond not_less)
  qed
qed

lemma processClass_other:
  "P (pj pre (filename c)) \<noteq> Some i \<Longrightarrow> processClass pj pf pre P fs c ! i = fs ! i"
  by (auto simp: processClass_def split: option.splits)

lemma processClass_hit:
  "P (pj pre (filename c)) = Some i \<Longrightarrow> i < length fs \<Longrightarrow>
     snd (snd (processClass pj pf pre P fs c ! i)) = Value (pf (lineRate c))"
  by (simp add: processClass_def setIndex2_def)

lemma classes_length:
  "length (foldl (processClass pj pf pre P) fs cs) = length fs"
  by (induction cs arbitrary: fs) (simp_all add: processClass_length)

lemma classes_path_size:
  "fst (foldl (processClass pj pf pre P) fs cs ! i) = fst (fs ! i)
   \<and> fst (snd (foldl (processClass pj pf pre P) fs cs ! i)) = fst (snd (fs ! i))"
  by (induction cs arbitrary: fs) (simp_all add: processClass_path_size)

lemma classes_untouched:
  "\<forall>c\<in>set cs. P (pj pre (filename c)) \<noteq> Some i \<Longrightarrow>
     foldl (processClass pj pf pre P) fs cs ! i = fs ! i"
  by (induction cs arbitrary: fs) (simp_all add: processClass_other)

lemma classes_slot_determined:
  assumes "\<exists>c\<in>set cs. P (pj pre (filename c)) = Some i"
    and "i < length fs" and "length fs' = length fs"
  shows "snd (snd (foldl (processClass pj pf pre P) fs cs ! i))
         = snd (snd (foldl (processClass pj pf pre P) fs' cs ! i))"
  using assms(1)
proof (induction cs rule: rev_induct)
  case Nil
  then show ?case by simp
next
  case (snoc c cs)
  show ?case
  proof (cases "P (pj pre (filename c)) = Some i")
    case True
    then show ?thesis
      using assms(2,3) by (simp add: processClass_hit classes_length)
  next
    case False
    with snoc.prems have "\<exists>c\<in>set cs. P (pj pre (filename c)) = Some i" by auto
    with snoc.IH False show ?thesis
      by (simp add: processClass_other)
  qed
qed

lemma classes_paths:
  "map fst (foldl (processClass pj pf pre P) fs cs) = map fst fs"
  by (rule nth_equalityI) (simp_all add: classes_length classes_path_size)

lemma classes_idempotent:
  "foldl (processClass pj pf pre P) (foldl (processClass pj pf pre P) fs cs) cs
     = foldl (processClass pj pf pre P) fs cs"
proof (rule nth_equalityI)
  show "length (foldl (processClass pj pf pre P) (foldl (processClass pj pf pre P) fs cs) cs)
        = length (foldl (processClass pj pf pre P) fs cs)"
    by (simp add: classes_length)
next
  fix i
  assume "i < length (foldl (processClass pj pf pre P) (foldl (processClass pj pf pre P) fs cs) cs)"
  then have i: "i < length fs" by (simp add: classes_length)
  let ?once = "foldl (processClass pj pf pre P) fs cs"
  show "foldl (processClass pj pf pre P) ?once cs ! i = ?once ! i"
  proof (cases "\<exists>c\<in>set cs. P (pj pre (filename c)) = Some i")
    case False
    then show ?thesis by (simp add: classes_untouched)
  next
    case True
    have "snd (snd (foldl (processClass pj pf pre P) ?once cs ! i)) = snd (snd (?once ! i))"
    proof (rule classes_slot_determined)
      show "\<exists>c\<in>set cs. P (pj pre (filename c)) = Some i" by (rule True)
      show "i < length ?once" using i by (simp add: classes_length)
      show "length fs = length ?once" by (simp add: classes_length)
    qed
    then show ?thesis
      by (intro prod_eqI) (simp_all add: classes_path_size)
  qed
qed

text \<open>
  C8. The reconciliation is idempotent: a second run of processXml with the same report on
  the list that the first run left gives the very same list, so every attached value is as
  after the first run.
\<close>

theorem processXml_idempotent:
  "processXml pathJoin parseFloat parsed (processXml pathJoin parseFloat parsed fileSizes)
     = processXml pathJoin parseFloat parsed fileSizes"
  by (simp add: processXml_classes classes_paths classes_idempotent)




section \<open>Properties of processSizeValuePathTuple\<close>

lemma scan_append:
  "scan st (xs @ ys) = (case scan st xs of Inl e \<Rightarrow> Inl e | Inr st' \<Rightarrow> scan st' ys)"
  by (induction xs arbitrary: st) (simp_all split: sum.splits)

lemma scan_snoc:
  "scan st (xs @ [x]) = (case scan st xs of Inl e \<Rightarrow> Inl e | Inr st' \<Rightarrow> step st' x)"
  by (simp add: scan_append split: sum.splits)

lemma mapParseLine_snoc:
  "mapParseLine (xs @ [x]) =
     (case mapParseLine xs of
        Inl e \<Rightarrow> Inl e
      | Inr rs \<Rightarrow> (case parseLine x of Inl e \<Rightarrow> Inl e | Inr r \<Rightarrow> Inr (rs @ [r])))"
  by (induction xs) (simp_all split: sum.splits)

lemma primaryLines_all:
  "\<not> (\<exists>d\<in>set ls. isValueDelimeter d) \<Longrightarrow> primaryLines ls = ls"
  by (simp add: primaryLines_def)

lemma primaryLines_snoc_found:
  "\<exists>d\<in>set ls. isValueDelimeter d \<Longrightarrow> primaryLines (ls @ [l]) = primaryLines ls"
  unfolding primaryLines_def by (metis takeWhile_append1)

lemma primaryLines_snoc_delim:
  "isValueDelimeter l \<Longrightarrow> primaryLines (ls @ [l]) = primaryLines ls"
proof (cases "\<exists>d\<in>set ls. isValueDelimeter d")
  case True
  then show ?thesis by (rule primaryLines_snoc_found)
next
  case False
  assume l: "isValueDelimeter l"
  have "primaryLines (ls @ [l]) = ls @ takeWhile (\<lambda>l. \<not> isValueDelimeter l) [l]"
    unfolding primaryLines_def by (rule takeWhile_append2) (use False in blast)
  then show ?thesis
    using l primaryLines_all[OF False] by simp
qed

lemma primaryLines_snoc_primary:
  "\<not> (\<exists>d\<in>set ls. isValueDelimeter d) \<Longrightarrow> \<not> isValueDelimeter l \<Longrightarrow>
     primaryLines (ls @ [l]) = primaryLines ls @ [l]"
proof -
  assume a: "\<not> (\<exists>d\<in>set ls. isValueDelimeter d)" and l: "\<not> isValueDelimeter l"
  have "primaryLines (ls @ [l]) = ls @ takeWhile (\<lambda>l. \<not> isValueDelimeter l) [l]"
    unfolding primaryLines_def by (rule takeWhile_append2) (use a in blast)
  then show ?thesis
    using l primaryLines_all[OF a] by simp
qed

lemma step_delim:
  "isValueDelimeter l \<Longrightarrow> step st l = Inr (st\<lparr>foundValueDelimeter := True\<rparr>)"
  by (simp add: step_def)

lemma step_error:
  "\<not> isValueDelimeter l \<Longrightarrow> parseLine l = Inl e \<Longrightarrow> step st l = Inl e"
  by (simp add: step_def)

lemma step_primary:
  "\<not> isValueDelimeter l \<Longrightarrow> \<not> foundValueDelimeter st \<Longrightarrow> parseLine l = Inr (p, n) \<Longrightarrow>
     step st l = Inr (st\<lparr>heap := heap st @ [(p, n, Absent)],
                         results := results st @ [length (heap st)],
                         ptrs := (ptrs st)(p \<mapsto> length (heap st))\<rparr>)"
  by (simp add: step_def)

lemma step_overlay_hit:
  "\<not> isValueDelimeter l \<Longrightarrow> foundValueDelimeter st \<Longrightarrow> parseLine l = Inr (p, n) \<Longrightarrow>
     ptrs st p = Some a \<Longrightarrow>
     step st l = Inr (st\<lparr>heap := list_update (heap st) a (setIndex2 (heap st ! a) (Value n))\<rparr>)"
  by (simp add: step_def)

lemma step_overlay_miss:
  "\<not> isValueDelimeter l \<Longrightarrow> foundValueDelimeter st \<Longrightarrow> parseLine l = Inr (p, n) \<Longrightarrow>
     ptrs st p = None \<Longrightarrow>
     step st l = Inr (st\<lparr>heap := heap st @ [(p, Fin 0, Value n)],
                         results := results st @ [length (heap st)]\<rparr>)"
  by (simp add: step_def)

lemma scanned_init: "scanned [] [] initState"
  by (simp add: scanned_def initState_def indexByPath_Nil)

lemma scanned_delim:
  assumes "scanned ls rs st" and "isValueDelimeter l"
  shows "scanned (ls @ [l]) rs (st\<lparr>foundValueDelimeter := True\<rparr>)"
  using assms unfolding scanned_def by auto

lemma scanned_primary:
  assumes "scanned ls rs st" and "\<not> foundValueDelimeter st" and "\<not> isValueDelimeter l"
  shows "scanned (ls @ [l]) (rs @ [(p, n)])
           (st\<lparr>heap := heap st @ [(p, n, Absent)],
               results := results st @ [length (heap st)],
               ptrs := (ptrs st)(p \<mapsto> length (heap st))\<rparr>)"
proof -
  from assms(1,2) have len: "length (heap st) = length rs"
    and pt: "ptrs st = indexByPath (map fst rs)"
    and res: "results st = [0..<length (heap st)]"
    and fnd: "\<not> (\<exists>d \<in> set ls. isValueDelimeter d)"
    and rows: "\<forall>j < length rs. fst (heap st ! j) = fst (rs ! j) \<and> fst (snd (heap st ! j)) = snd (rs ! j)"
    and slots: "\<forall>j < length rs. snd (snd (heap st ! j)) = Absent"
    unfolding scanned_def by simp_all
  have 1: "(ptrs st)(p \<mapsto> length (heap st)) = indexByPath (map fst (rs @ [(p, n)]))"
    by (simp add: pt len indexByPath_snoc)
  have 2: "results st @ [length (heap st)] = [0..<length (heap st @ [(p, n, Absent)])]"
    by (simp add: res)
  have 3: "\<forall>j < length (rs @ [(p, n)]).
             fst ((heap st @ [(p, n, Absent)]) ! j) = fst ((rs @ [(p, n)]) ! j)
             \<and> fst (snd ((heap st @ [(p, n, Absent)]) ! j)) = snd ((rs @ [(p, n)]) ! j)
             \<and> snd (snd ((heap st @ [(p, n, Absent)]) ! j)) = Absent"
  proof (intro allI impI)
    fix j assume "j < length (rs @ [(p, n)])"
    then consider "j < length rs" | "j = length rs" by fastforce
    then show "fst ((heap st @ [(p, n, Absent)]) ! j) = fst ((rs @ [(p, n)]) ! j)
             \<and> fst (snd ((heap st @ [(p, n, Absent)]) ! j)) = snd ((rs @ [(p, n)]) ! j)
             \<and> snd (snd ((heap st @ [(p, n, Absent)]) ! j)) = Absent"
    proof cases
      case 1
      then show ?thesis using rows slots len by (simp add: nth_append)
    next
      case 2
      then show ?thesis using len by (simp add: nth_append)
    qed
  qed
  show ?thesis
    unfolding scanned_def using 1 2 3 fnd assms(2,3) len by simp
qed

lemma setIndex2_update_nth:
  "fst (xs[a := setIndex2 (xs ! a) v] ! j) = fst (xs ! j)
   \<and> fst (snd (xs[a := setIndex2 (xs ! a) v] ! j)) = fst (snd (xs ! j))"
proof (cases "a < length xs")
  case True
  then show ?thesis by (cases "j = a") (simp_all add: setIndex2_def)
next
  case False
  then show ?thesis by (simp add: list_update_beyond not_less)
qed

lemma scanned_overlay_hit:
  assumes "scanned ls rs st" and "foundValueDelimeter st"
  shows "scanned (ls @ [l]) rs (st\<lparr>heap := list_update (heap st) a (setIndex2 (heap st ! a) v)\<rparr>)"
  using assms unfolding scanned_def by (simp add: setIndex2_update_nth)

lemma scanned_overlay_miss:
  assumes "scanned ls rs st" and "foundValueDelimeter st"
  shows "scanned (ls @ [l]) rs (st\<lparr>heap := heap st @ [r],
                                     results := results st @ [length (heap st)]\<rparr>)"
  using assms unfolding scanned_def by (simp add: nth_append)

lemma scan_scanned:
  "scan initState ls = Inr st \<Longrightarrow>
     \<exists>rs. mapParseLine (primaryLines ls) = Inr rs \<and> scanned ls rs st"
proof (induction ls arbitrary: st rule: rev_induct)
  case Nil
  then have "st = initState" by simp
  then show ?case
    using scanned_init by (simp add: primaryLines_def)
next
  case (snoc l ls)
  from snoc.prems obtain st0 where s0: "scan initState ls = Inr st0" and s1: "step st0 l = Inr st"
    by (auto simp: scan_snoc split: sum.splits)
  from snoc.IH[OF s0] obtain rs where
    rs: "mapParseLine (primaryLines ls) = Inr rs" and sc: "scanned ls rs st0"
    by blast
  show ?case
  proof (cases "isValueDelimeter l")
    case True
    with s1 have "st = st0\<lparr>foundValueDelimeter := True\<rparr>"
      by (simp add: step_delim)
    then show ?thesis
      using rs scanned_delim[OF sc True] primaryLines_snoc_delim[OF True] by auto
  next
    case nd: False
    obtain p n where pn: "parseLine l = Inr (p, n)"
    proof (cases "parseLine l")
      case (Inl e)
      with nd s1 show ?thesis by (simp add: step_error)
    next
      case (Inr r)
      then show ?thesis using that by (cases r) auto
    qed
    show ?thesis
    proof (cases "foundValueDelimeter st0")
      case False
      from sc False have fnd: "\<not> (\<exists>d\<in>set ls. isValueDelimeter d)"
        by (simp add: scanned_def)
      have "mapParseLine (primaryLines (ls @ [l])) = Inr (rs @ [(p, n)])"
        using rs pn by (simp add: primaryLines_snoc_primary[OF fnd nd] mapParseLine_snoc)
      moreover have "scanned (ls @ [l]) (rs @ [(p, n)]) st"
        using s1 scanned_primary[OF sc False nd, of p n]
        by (simp add: step_primary[OF nd False pn])
      ultimately show ?thesis by blast
    next
      case True
      with sc have fnd: "\<exists>d\<in>set ls. isValueDelimeter d"
        by (simp add: scanned_def)
      have m: "mapParseLine (primaryLines (ls @ [l])) = Inr rs"
        using rs by (simp add: primaryLines_snoc_found[OF fnd])
      have "scanned (ls @ [l]) rs st"
      proof (cases "ptrs st0 p")
        case None
        show ?thesis
          using s1 scanned_overlay_miss[OF sc True, of l "(p, Fin 0, Value n)"]
          by (simp add: step_overlay_miss[OF nd True pn None])
      next
        case (Some a)
        show ?thesis
          using s1 scanned_overlay_hit[OF sc True, of l a "Value n"]
          by (simp add: step_overlay_hit[OF nd True pn Some])
      qed
      with m show ?thesis by blast
    qed
  qed
qed

lemma returned_heap:
  "results st = [0..<length (heap st)] \<Longrightarrow> returned st = heap st"
  using map_nth[of "heap st"] by (simp add: returned_def)

lemma returned_signal:
  assumes "results st = [0..<length (heap st)]"
  shows "returned (signal st) = signalRows (foundValueDelimeter st) (heap st)"
proof (cases "heap st")
  case Nil
  with assms show ?thesis
    by (simp add: signal_def returned_def signalRows_def)
next
  case (Cons r rest)
  have "[0..<length (heap st)] = 0 # [Suc 0..<length (heap st)]"
    by (rule upt_conv_Cons) (simp add: Cons)
  with assms Cons have h0: "hd (results st) = 0" "results st \<noteq> []" "heap st ! 0 = r"
    by simp_all
  show ?thesis
  proof (cases "foundValueDelimeter st \<and> rowLength r = 2")
    case True
    have "map ((!) ((heap st)[0 := setIndex2 r Undefined])) [0..<length (heap st)]
          = (heap st)[0 := setIndex2 r Undefined]"
      using map_nth[of "(heap st)[0 := setIndex2 r Undefined]"] by simp
    then show ?thesis
      using True h0 assms Cons by (simp add: signal_def returned_def signalRows_def)
  next
    case False
    then have 1: "signal st = st"
      using h0 by (auto simp: signal_def)
    have 2: "returned st = heap st"
      by (rule returned_heap[OF assms])
    have 3: "signalRows (foundValueDelimeter st) (heap st) = heap st"
      using False Cons by (auto simp: signalRows_def)
    show ?thesis
      by (simp only: 1 2 3)
  qed
qed

lemma processLines_rows:
  assumes "scan initState ls = Inr st"
  shows "processLines ls = Inr (signalRows (foundValueDelimeter st) (heap st))"
proof -
  from scan_scanned[OF assms] have "results st = [0..<length (heap st)]"
    by (auto simp: scanned_def)
  then show ?thesis
    using assms by (simp add: processLines_def returned_signal)
qed

lemma processLines_Inr:
  assumes "processLines ls = Inr out"
  obtains st where "scan initState ls = Inr st"
    and "out = signalRows (foundValueDelimeter st) (heap st)"
proof (cases "scan initState ls")
  case (Inl e)
  with assms show ?thesis by (simp add: processLines_def)
next
  case (Inr st)
  with assms processLines_rows[OF Inr] that show ?thesis by simp
qed

lemma signalRows_length: "length (signalRows f h) = length h"
  by (simp add: signalRows_def split: list.splits)

lemma signalRows_path_size:
  "fst (signalRows f h ! j) = fst (h ! j) \<and> fst (snd (signalRows f h ! j)) = fst (snd (h ! j))"
  by (cases h; cases j) (simp_all add: signalRows_def setIndex2_def)

lemma signalRows_snoc:
  "rowLength r \<noteq> 2 \<Longrightarrow> signalRows f (h @ [r]) = signalRows f h @ [r]"
  by (cases h) (simp_all add: signalRows_def)

lemma signalRows_update:
  "rowLength x \<noteq> 2 \<Longrightarrow> signalRows f (h[i := x]) = (signalRows f h)[i := x]"
  by (cases h; cases i) (simp_all add: signalRows_def)

lemma signalRows_primary: "signalRows False h = h"
  by (simp add: signalRows_def split: list.splits)

lemma blank_not_delimeter:
  assumes "blankLine l"
  shows "\<not> isValueDelimeter l"
proof -
  have "isValueDelimeter s \<Longrightarrow> CHR ''['' \<in> set s" for s
    by (induction s) auto
  moreover have "\<not> isSpace CHR ''[''"
    by (simp add: isSpace_def)
  ultimately show ?thesis
    using assms by (auto simp: blankLine_def list_all_iff)
qed

lemma parseLine_blank: "blankLine l \<Longrightarrow> parseLine l = Inr ([], Fin 0)"
  by (simp add: parseLine_def)

lemma processLines_state:
  assumes "processLines ls = Inr out" and "mapParseLine (primaryLines ls) = Inr rs"
  obtains st where "scan initState ls = Inr st"
    and "out = signalRows (foundValueDelimeter st) (heap st)"
    and "scanned ls rs st"
proof -
  from assms(1) obtain st where s: "scan initState ls = Inr st"
    and o: "out = signalRows (foundValueDelimeter st) (heap st)"
    by (rule processLines_Inr)
  from scan_scanned[OF s] assms(2) have "scanned ls rs st" by auto
  with s o that show ?thesis by blast
qed

lemma primary_rows_output:
  assumes "processLines ls = Inr out" and "mapParseLine (primaryLines ls) = Inr rs"
  shows "length rs \<le> length out
         \<and> (\<forall>j < length rs. fst (out ! j) = fst (rs ! j) \<and> fst (snd (out ! j)) = snd (rs ! j))"
proof -
  from assms obtain st where o: "out = signalRows (foundValueDelimeter st) (heap st)"
    and sc: "scanned ls rs st"
    by (rule processLines_state)
  from sc have "length rs \<le> length (heap st)"
    and "\<forall>j < length rs. fst (heap st ! j) = fst (rs ! j) \<and> fst (snd (heap st ! j)) = snd (rs ! j)"
    by (simp_all add: scanned_def)
  then show ?thesis
    by (simp add: o signalRows_length signalRows_path_size)
qed

lemma overlay_hit_output:
  assumes "processLines ls = Inr out"
    and "\<exists>d\<in>set ls. isValueDelimeter d"
    and "mapParseLine (primaryLines ls) = Inr rs"
    and "\<not> isValueDelimeter l" and "parseLine l = Inr (p, v)"
    and "i < length rs" and "fst (rs ! i) = p"
    and "\<forall>j. i < j \<and> j < length rs \<longrightarrow> fst (rs ! j) \<noteq> p"
  shows "processLines (ls @ [l]) = Inr (out[i := (p, snd (rs ! i), Value v)])"
proof -
  from assms(1,3) obtain st where s: "scan initState ls = Inr st"
    and o: "out = signalRows (foundValueDelimeter st) (heap st)"
    and sc: "scanned ls rs st"
    by (rule processLines_state)
  from sc assms(2) have f: "foundValueDelimeter st"
    by (simp add: scanned_def)
  from sc have "ptrs st = indexByPath (map fst rs)"
    by (simp add: scanned_def)
  moreover have "indexByPath (map fst rs) p = Some i"
    unfolding indexByPath_Some using assms(6,7,8) by simp
  ultimately have pt: "ptrs st p = Some i" by simp
  from sc assms(6,7) have row: "setIndex2 (heap st ! i) (Value v) = (p, snd (rs ! i), Value v)"
    by (simp add: scanned_def setIndex2_def)
  let ?st' = "st\<lparr>heap := list_update (heap st) i (setIndex2 (heap st ! i) (Value v))\<rparr>"
  have "scan initState (ls @ [l]) = Inr ?st'"
    by (simp add: scan_snoc s step_overlay_hit[OF assms(4) f assms(5) pt])
  then have "processLines (ls @ [l])
             = Inr (signalRows (foundValueDelimeter ?st') (heap ?st'))"
    by (rule processLines_rows)
  moreover have "rowLength (p, snd (rs ! i), Value v) \<noteq> 2"
    by (simp add: rowLength_def)
  ultimately show ?thesis
    by (simp add: row o signalRows_update)
qed

text \<open>
  C3. After the delimeter, a line whose path is the path of no primary line appends the
  row (path, 0, number of the line) at the end of the returned list; the rows before it are
  as they would be without the line.
\<close>

theorem overlay_unmatched_appends:
  assumes "processLines ls = Inr out"
    and "\<exists>d\<in>set ls. isValueDelimeter d"
    and "mapParseLine (primaryLines ls) = Inr rs"
    and "\<not> isValueDelimeter l" and "parseLine l = Inr (p, n)"
    and "p \<notin> fst ` set rs"
  shows "processLines (ls @ [l]) = Inr (out @ [(p, Fin 0, Value n)])"
proof -
  from assms(1,3) obtain st where s: "scan initState ls = Inr st"
    and o: "out = signalRows (foundValueDelimeter st) (heap st)"
    and sc: "scanned ls rs st"
    by (rule processLines_state)
  from sc assms(2) have f: "foundValueDelimeter st"
    by (simp add: scanned_def)
  from sc have "ptrs st = indexByPath (map fst rs)"
    by (simp add: scanned_def)
  moreover have "indexByPath (map fst rs) p = None"
    unfolding indexByPath_None using assms(6) by simp
  ultimately have pt: "ptrs st p = None" by simp
  let ?st' = "st\<lparr>heap := heap st @ [(p, Fin 0, Value n)],
                  results := results st @ [length (heap st)]\<rparr>"
  have "scan initState (ls @ [l]) = Inr ?st'"
    by (simp add: scan_snoc s step_overlay_miss[OF assms(4) f assms(5) pt])
  then have "processLines (ls @ [l])
             = Inr (signalRows (foundValueDelimeter ?st') (heap ?st'))"
    by (rule processLines_rows)
  moreover have "rowLength (p, Fin 0, Value n) \<noteq> 2"
    by (simp add: rowLength_def)
  ultimately show ?thesis
    by (simp add: o signalRows_snoc)
qed

theorem overlay_unmatched_appends_witness:
  "processLines [''10 /x'', ''[[ scores ]]'', ''0.3 /new'']
     = Inr [(''/x'', Fin 10, Undefined), (''/new'', Fin 0, Value (Fin (3 / 10)))]"
proof -
  have 1: "processLines [''10 /x'', ''[[ scores ]]''] = Inr [(''/x'', Fin 10, Undefined)]"
    by code_simp
  have 2: "\<exists>d\<in>set [''10 /x'', ''[[ scores ]]'']. isValueDelimeter d"
    by (simp add: isLineTerminator_def)
  have 3: "mapParseLine (primaryLines [''10 /x'', ''[[ scores ]]'']) = Inr [(''/x'', Fin 10)]"
    by code_simp
  have 4: "\<not> isValueDelimeter ''0.3 /new''"
    by code_simp
  have 5: "parseLine ''0.3 /new'' = Inr (''/new'', Fin (3 / 10))"
    by code_simp
  have 6: "''/new'' \<notin> fst ` set [(''/x'', Fin 10)]"
    by simp
  show ?thesis
    using overlay_unmatched_appends[OF 1 2 3 4 5 6] by simp
qed

text \<open>
  C4 (as amended). Every primary line has its own position in the returned list, in input
  order, with its path and size, also when a path repeats; and an overlay line sets the
  value of the last primary row with its path, and of no other row. (The claim fails:
  with \<open>1 /a\<close>, \<open>2 /a\<close>, a delimeter and \<open>0.5 /a\<close>, the path \<open>/a\<close> has two positions and the
  value is on the second.)
\<close>

theorem repeated_path_last_wins:
  assumes "processLines ls = Inr out"
    and "\<exists>d\<in>set ls. isValueDelimeter d"
    and "mapParseLine (primaryLines ls) = Inr rs"
    and "\<not> isValueDelimeter l" and "parseLine l = Inr (p, v)"
    and "i < length rs" and "fst (rs ! i) = p"
    and "\<forall>j. i < j \<and> j < length rs \<longrightarrow> fst (rs ! j) \<noteq> p"
  shows "length rs \<le> length out
         \<and> (\<forall>j < length rs. fst (out ! j) = fst (rs ! j) \<and> fst (snd (out ! j)) = snd (rs ! j))
         \<and> processLines (ls @ [l]) = Inr (out[i := (p, snd (rs ! i), Value v)])"
  using primary_rows_output[OF assms(1,3)] overlay_hit_output[OF assms]
  by blast

theorem repeated_path_last_wins_witness:
  "processLines [''3 /b'', ''4 /b'', ''[[ w ]]'', ''0.25 /b'']
     = Inr [(''/b'', Fin 3, Undefined), (''/b'', Fin 4, Value (Fin (1 / 4)))]"
proof -
  have 1: "processLines [''3 /b'', ''4 /b'', ''[[ w ]]'']
           = Inr [(''/b'', Fin 3, Undefined), (''/b'', Fin 4, Absent)]"
    by code_simp
  have 2: "\<exists>d\<in>set [''3 /b'', ''4 /b'', ''[[ w ]]'']. isValueDelimeter d"
    by (simp add: isLineTerminator_def)
  have 3: "mapParseLine (primaryLines [''3 /b'', ''4 /b'', ''[[ w ]]''])
           = Inr [(''/b'', Fin 3), (''/b'', Fin 4)]"
    by code_simp
  have 4: "\<not> isValueDelimeter ''0.25 /b''"
    by code_simp
  have 5: "parseLine ''0.25 /b'' = Inr (''/b'', Fin (1 / 4))"
    by code_simp
  have 6: "1 < length [(''/b'', Fin 3), (''/b'', Fin (4::rat))]"
    by simp
  have 7: "fst ([(''/b'', Fin 3), (''/b'', Fin 4)] ! 1) = ''/b''"
    by simp
  have 8: "\<forall>j. 1 < j \<and> j < length [(''/b'', Fin 3), (''/b'', Fin 4)]
             \<longrightarrow> fst ([(''/b'', Fin 3), (''/b'', Fin 4)] ! j) \<noteq> ''/b''"
    by auto
  show ?thesis
    using repeated_path_last_wins[OF 1 2 3 4 5 6 7 8] by simp
qed

theorem first_occurrence_counterexample:
  "processLines [''1 /a'', ''2 /a'', ''[[v]]'', ''0.5 /a'']
     = Inr [(''/a'', Fin 1, Undefined), (''/a'', Fin 2, Value (Fin (1 / 2)))]"
  by code_simp

text \<open>
  C6. Let \<open>st\<close> be the state after the loop, so that \<open>returned st\<close> is the result list
  before the last step. If a delimeter was seen, the list is not empty and its first row
  has no third position, then what is returned is the list with the third position of the
  first row set to undefined; if the first row has a value, the last step changes nothing.
\<close>

theorem signal_on_first_row:
  assumes "scan initState ls = Inr st"
  shows "(foundValueDelimeter st \<and> returned st \<noteq> [] \<and> snd (snd (hd (returned st))) = Absent
            \<longrightarrow> processLines ls
                  = Inr (setIndex2 (hd (returned st)) Undefined # tl (returned st)))
         \<and> (returned st \<noteq> [] \<and> (\<exists>v. snd (snd (hd (returned st))) = Value v)
            \<longrightarrow> signal st = st \<and> processLines ls = Inr (returned st))"
proof -
  from scan_scanned[OF assms] have res: "results st = [0..<length (heap st)]"
    by (auto simp: scanned_def)
  have ret: "returned st = heap st"
    by (rule returned_heap[OF res])
  have pl: "processLines ls = Inr (signalRows (foundValueDelimeter st) (heap st))"
    by (rule processLines_rows[OF assms])
  show ?thesis
  proof (rule conjI; rule impI)
    assume a: "foundValueDelimeter st \<and> returned st \<noteq> [] \<and> snd (snd (hd (returned st))) = Absent"
    then obtain r rest where h: "heap st = r # rest"
      using ret by (cases "heap st") auto
    with a ret have "rowLength r = 2"
      by (simp add: rowLength_def)
    with a h show "processLines ls = Inr (setIndex2 (hd (returned st)) Undefined # tl (returned st))"
      by (simp add: pl ret signalRows_def)
  next
    assume a: "returned st \<noteq> [] \<and> (\<exists>v. snd (snd (hd (returned st))) = Value v)"
    then obtain r rest where h: "heap st = r # rest"
      using ret by (cases "heap st") auto
    with a ret have r3: "rowLength r \<noteq> 2"
      by (auto simp: rowLength_def)
    have "[0..<length (heap st)] = 0 # [Suc 0..<length (heap st)]"
      by (rule upt_conv_Cons) (simp add: h)
    with res h have "hd (results st) = 0" "heap st ! 0 = r"
      by simp_all
    with r3 have s: "signal st = st"
      by (simp add: signal_def)
    have "processLines ls = Inr (returned st)"
      using r3 h by (simp add: pl ret signalRows_def)
    with s show "signal st = st \<and> processLines ls = Inr (returned st)"
      by simp
  qed
qed

theorem signal_on_first_row_witness:
  "processLines [''1 /a'', ''[[v]]''] = Inr [(''/a'', Fin 1, Undefined)]
   \<and> processLines [''1 /a'', ''[[v]]'', ''0.5 /a''] = Inr [(''/a'', Fin 1, Value (Fin (1 / 2)))]"
proof -
  let ?st1 = "\<lparr>heap = [(''/a'', Fin 1, Absent)], results = [0],
               ptrs = [''/a'' \<mapsto> 0], foundValueDelimeter = True\<rparr>"
  let ?st2 = "\<lparr>heap = [(''/a'', Fin 1, Value (Fin (1 / 2)))], results = [0],
               ptrs = [''/a'' \<mapsto> 0], foundValueDelimeter = True\<rparr>"
  have p1: "parseLine ''1 /a'' = Inr (''/a'', Fin 1)" by code_simp
  have p2: "parseLine ''0.5 /a'' = Inr (''/a'', Fin (1 / 2))" by code_simp
  have s1: "scan initState [''1 /a'', ''[[v]]''] = Inr ?st1"
    by (simp add: step_def initState_def p1 isLineTerminator_def)
  have s2: "scan initState [''1 /a'', ''[[v]]'', ''0.5 /a''] = Inr ?st2"
    by (simp add: step_def initState_def p1 p2 isLineTerminator_def setIndex2_def)
  have "processLines [''1 /a'', ''[[v]]''] = Inr [(''/a'', Fin 1, Undefined)]"
    using signal_on_first_row[OF s1] by (simp add: returned_def setIndex2_def)
  moreover have "processLines [''1 /a'', ''[[v]]'', ''0.5 /a'']
                  = Inr [(''/a'', Fin 1, Value (Fin (1 / 2)))]"
    using signal_on_first_row[OF s2] by (simp add: returned_def)
  ultimately show ?thesis by simp
qed

text \<open>
  C10 (as amended). Before the delimeter a blank line appends the row ("", 0) at the end
  of the list and the lookup map then holds that row under the empty path. After the
  delimeter a blank line sets to 0 the value of the row that the map holds under the empty
  path, which is the last primary row with an empty path: the row of the last blank line
  before the delimeter, unless a later primary line has an empty path too. (With two
  blank lines before the delimeter, the row of the first one is not given the value 0.)
\<close>

theorem blank_lines_are_rows:
  "(processLines ls = Inr out \<and> (\<forall>d\<in>set ls. \<not> isValueDelimeter d) \<and> blankLine b
      \<longrightarrow> processLines (ls @ [b]) = Inr (out @ [([], Fin 0, Absent)])
          \<and> (\<exists>st'. scan initState (ls @ [b]) = Inr st' \<and> ptrs st' [] = Some (length out)
                    \<and> returned st' ! length out = ([], Fin 0, Absent)))
   \<and> (processLines ms = Inr out' \<and> (\<exists>d\<in>set ms. isValueDelimeter d)
        \<and> mapParseLine (primaryLines ms) = Inr rs \<and> blankLine b'
        \<and> i < length rs \<and> fst (rs ! i) = []
        \<and> (\<forall>j. i < j \<and> j < length rs \<longrightarrow> fst (rs ! j) \<noteq> [])
      \<longrightarrow> processLines (ms @ [b']) = Inr (out'[i := ([], snd (rs ! i), Value (Fin 0))]))"
proof (rule conjI; rule impI)
  assume a: "processLines ls = Inr out \<and> (\<forall>d\<in>set ls. \<not> isValueDelimeter d) \<and> blankLine b"
  then obtain st where s: "scan initState ls = Inr st"
    and o: "out = signalRows (foundValueDelimeter st) (heap st)"
    by (auto elim: processLines_Inr)
  from scan_scanned[OF s] obtain rs0 where sc: "scanned ls rs0 st" by blast
  from sc a have nf: "\<not> foundValueDelimeter st"
    by (simp add: scanned_def)
  from a have nd: "\<not> isValueDelimeter b" and pb: "parseLine b = Inr ([], Fin 0)"
    by (simp_all add: blank_not_delimeter parseLine_blank)
  let ?st' = "st\<lparr>heap := heap st @ [([], Fin 0, Absent)],
                  results := results st @ [length (heap st)],
                  ptrs := (ptrs st)([] \<mapsto> length (heap st))\<rparr>"
  have s': "scan initState (ls @ [b]) = Inr ?st'"
    by (simp add: scan_snoc s step_primary[OF nd nf pb])
  have oh: "out = heap st"
    using o nf by (simp add: signalRows_primary)
  from sc have res: "results st = [0..<length (heap st)]"
    by (simp add: scanned_def)
  have "processLines (ls @ [b]) = Inr (signalRows (foundValueDelimeter ?st') (heap ?st'))"
    by (rule processLines_rows[OF s'])
  then have 1: "processLines (ls @ [b]) = Inr (out @ [([], Fin 0, Absent)])"
    using nf by (simp add: oh signalRows_primary)
  have "returned ?st' = heap ?st'"
    by (rule returned_heap) (simp add: res)
  then have 2: "ptrs ?st' [] = Some (length out) \<and> returned ?st' ! length out = ([], Fin 0, Absent)"
    by (simp add: oh)
  from 1 2 s' show "processLines (ls @ [b]) = Inr (out @ [([], Fin 0, Absent)])
          \<and> (\<exists>st'. scan initState (ls @ [b]) = Inr st' \<and> ptrs st' [] = Some (length out)
                    \<and> returned st' ! length out = ([], Fin 0, Absent))"
    by blast
next
  assume a: "processLines ms = Inr out' \<and> (\<exists>d\<in>set ms. isValueDelimeter d)
        \<and> mapParseLine (primaryLines ms) = Inr rs \<and> blankLine b'
        \<and> i < length rs \<and> fst (rs ! i) = []
        \<and> (\<forall>j. i < j \<and> j < length rs \<longrightarrow> fst (rs ! j) \<noteq> [])"
  then have nd: "\<not> isValueDelimeter b'" and pb: "parseLine b' = Inr ([], Fin 0)"
    by (simp_all add: blank_not_delimeter parseLine_blank)
  show "processLines (ms @ [b']) = Inr (out'[i := ([], snd (rs ! i), Value (Fin 0))])"
    by (rule overlay_hit_output[OF _ _ _ nd pb]) (use a in simp_all)
qed

theorem blank_lines_are_rows_witness:
  "processLines [''1 /a'', ''  ''] = Inr [(''/a'', Fin 1, Absent), ([], Fin 0, Absent)]
   \<and> processLines [''1 /a'', '''', ''[[v]]'', ''''] 
       = Inr [(''/a'', Fin 1, Undefined), ([], Fin 0, Value (Fin 0))]"
proof -
  have 1: "processLines [''1 /a''] = Inr [(''/a'', Fin 1, Absent)]
           \<and> (\<forall>d\<in>set [''1 /a'']. \<not> isValueDelimeter d) \<and> blankLine ''  ''"
    by code_simp
  have 2: "processLines [''1 /a'', '''', ''[[v]]'']
             = Inr [(''/a'', Fin 1, Undefined), ([], Fin 0, Absent)]
           \<and> (\<exists>d\<in>set [''1 /a'', '''', ''[[v]]'']. isValueDelimeter d)
           \<and> mapParseLine (primaryLines [''1 /a'', '''', ''[[v]]''])
               = Inr [(''/a'', Fin 1), ([], Fin 0)]
           \<and> blankLine ''''
           \<and> 1 < length [(''/a'', Fin 1), ([], Fin (0::rat))]
           \<and> fst ([(''/a'', Fin 1), ([], Fin 0)] ! 1) = []
           \<and> (\<forall>j. 1 < j \<and> j < length [(''/a'', Fin 1), ([], Fin 0)]
                 \<longrightarrow> fst ([(''/a'', Fin 1), ([], Fin 0)] ! j) \<noteq> [])"
  proof (intro conjI)
    show "processLines [''1 /a'', '''', ''[[v]]'']
             = Inr [(''/a'', Fin 1, Undefined), ([], Fin 0, Absent)]"
      by code_simp
    show "\<exists>d\<in>set [''1 /a'', '''', ''[[v]]'']. isValueDelimeter d"
      by (simp add: isLineTerminator_def)
    show "mapParseLine (primaryLines [''1 /a'', '''', ''[[v]]''])
               = Inr [(''/a'', Fin 1), ([], Fin 0)]"
      by code_simp
    show "blankLine ''''" by (simp add: blankLine_def)
    show "\<forall>j. 1 < j \<and> j < length [(''/a'', Fin 1), ([], Fin 0)]
                 \<longrightarrow> fst ([(''/a'', Fin 1), ([], Fin 0)] ! j) \<noteq> []"
      by auto
  qed simp_all
  from blank_lines_are_rows[of "[''1 /a'']" "[(''/a'', Fin 1, Absent)]" "''  ''"
        "[''1 /a'', '''', ''[[v]]'']" "[(''/a'', Fin 1, Undefined), ([], Fin 0, Absent)]"
        "[(''/a'', Fin 1), ([], Fin 0)]" "''''" 1]
  have "(processLines ([''1 /a''] @ [''  '']) = Inr ([(''/a'', Fin 1, Absent)] @ [([], Fin 0, Absent)]))
        \<and> processLines ([''1 /a'', '''', ''[[v]]''] @ [''''])
            = Inr ([(''/a'', Fin 1, Undefined), ([], Fin 0, Absent)]
                     [1 := ([], snd ([(''/a'', Fin 1), ([], Fin 0)] ! 1), Value (Fin 0))])"
    using 1 2 by blast
  then show ?thesis by simp
qed

theorem blank_line_value_counterexample:
  "processLines ['''', '''', ''[[d]]'', '''']
     = Inr [([], Fin 0, Undefined), ([], Fin 0, Value (Fin 0))]
   \<and> rowValue ([], Fin 0, Undefined) = None"
  by code_simp

end
